theory Spec2Isabelle
  imports Main "HOL-Library.AList"
begin

section \<open>The expert swapper of ktransformers/util/swapper.py\<close>

text \<open>
  The class \<open>Swapper\<close> keeps a bounded number of expert weight blocks in an
  \<open>OrderedDict\<close>, writes evicted blocks back to files through an asynchronous executor
  and reloads them on demand. The embedding is an explicit state record: every method
  takes the state and returns the new one together with what the method returns or raises.
\<close>

subsection \<open>Values, errors and files\<close>

text \<open>
  Tensors and metadata are opaque (\<open>'w\<close> and \<open>'m\<close>). A cache slot and the result of a
  future are untyped in Python: they hold either the tuple
  \<open>(gate, up, down, metadata)\<close> or the \<open>True\<close> that the save tasks return.
\<close>

datatype ('w, 'm) pyval = Expert 'w 'w 'w 'm | PyTrue

datatype error = FileNotFoundError | TimeoutError | TypeError | KeyError

type_synonym ('w, 'm) storage = "string \<rightharpoonup> ('w \<times> 'w \<times> 'w \<times> 'm)"

text \<open>\<open>data[:3]\<close>: slicing the tuple; a \<open>bool\<close> is not subscriptable.\<close>

definition slice3 :: "('w, 'm) pyval \<Rightarrow> error + ('w \<times> 'w \<times> 'w)" where
  "slice3 v = (case v of Expert g u d m \<Rightarrow> Inr (g, u, d) | PyTrue \<Rightarrow> Inl TypeError)"

subsection \<open>collections.OrderedDict\<close>

text \<open>
  The dictionary is its item list in iteration order, oldest first. The field
  \<open>touched\<close> is a ghost: no operation reads it. It records, most recent first, the key of
  every insertion of a new key and of every \<open>move_to_end\<close>, so that "least recently
  promoted or inserted" can be stated independently of the item order.
\<close>

record ('k, 'v) ordered_dict =
  items :: "('k \<times> 'v) list"
  touched :: "'k list"

definition od_empty :: "('k, 'v) ordered_dict" where
  "od_empty = \<lparr>items = [], touched = []\<rparr>"

definition od_keys :: "('k, 'v) ordered_dict \<Rightarrow> 'k list" where
  "od_keys d = map fst (items d)"

definition od_len :: "('k, 'v) ordered_dict \<Rightarrow> nat" where
  "od_len d = length (items d)"

definition od_contains :: "'k \<Rightarrow> ('k, 'v) ordered_dict \<Rightarrow> bool" where
  "od_contains k d = (map_of (items d) k \<noteq> None)"

definition od_getitem :: "'k \<Rightarrow> ('k, 'v) ordered_dict \<Rightarrow> 'v option" where
  "od_getitem k d = map_of (items d) k"

text \<open>\<open>d[k] = v\<close>: an existing key keeps its position, a new key goes to the end.\<close>

definition od_setitem :: "'k \<Rightarrow> 'v \<Rightarrow> ('k, 'v) ordered_dict \<Rightarrow> ('k, 'v) ordered_dict" where
  "od_setitem k v d =
     d\<lparr>items := AList.update k v (items d),
       touched := (if od_contains k d then touched d else k # touched d)\<rparr>"

text \<open>\<open>d.move_to_end(k)\<close>; every call in the source is on a key that is present.\<close>

definition od_move_to_end :: "'k \<Rightarrow> ('k, 'v) ordered_dict \<Rightarrow> ('k, 'v) ordered_dict" where
  "od_move_to_end k d =
     (case map_of (items d) k of
        None \<Rightarrow> d
      | Some v \<Rightarrow> d\<lparr>items := AList.delete k (items d) @ [(k, v)], touched := k # touched d\<rparr>)"

text \<open>\<open>d.popitem(last=False)\<close>; the caller has checked that the dictionary is not empty.\<close>

definition od_popitem_first ::
  "('k, 'v) ordered_dict \<Rightarrow> (('k \<times> 'v) \<times> ('k, 'v) ordered_dict) option" where
  "od_popitem_first d =
     (case items d of [] \<Rightarrow> None | kv # rest \<Rightarrow> Some (kv, d\<lparr>items := rest\<rparr>))"

definition od_delitem :: "'k \<Rightarrow> ('k, 'v) ordered_dict \<Rightarrow> ('k, 'v) ordered_dict" where
  "od_delitem k d = d\<lparr>items := AList.delete k (items d)\<rparr>"

subsection \<open>The executor and its futures\<close>

text \<open>
  \<open>cpu_infer.submit\<close> is not code of this repository. It is modelled as the spec describes
  the Async Task Executor: submitting never runs the task; a future is done once its task
  has run; \<open>result()\<close> blocks until then and returns the value or raises the task's error.
  The two closures of the source are the two jobs: \<open>_save_task\<close> captures the id and the
  cached value, \<open>_load_task\<close> the id.
\<close>

datatype ('w, 'm) job = SaveTask string "('w, 'm) pyval" | LoadTask string

record ('w, 'm) future =
  job :: "('w, 'm) job"
  outcome :: "(error + ('w, 'm) pyval) option"

text \<open>
  \<open>_save_task\<close> builds the dictionary from \<open>data[0]\<close>..\<open>data[3]\<close> and writes the file;
  \<open>_load_task\<close> reads the file, which raises when it does not exist.
\<close>

definition run_job ::
  "('w, 'm) job \<Rightarrow> ('w, 'm) storage \<Rightarrow> (error + ('w, 'm) pyval) \<times> ('w, 'm) storage" where
  "run_job j fs =
     (case j of
        SaveTask eid data \<Rightarrow>
          (case data of
             Expert g u d m \<Rightarrow> (Inr PyTrue, fs(eid \<mapsto> (g, u, d, m)))
           | PyTrue \<Rightarrow> (Inl TypeError, fs))
      | LoadTask eid \<Rightarrow>
          (case fs eid of
             None \<Rightarrow> (Inl FileNotFoundError, fs)
           | Some (g, u, d, m) \<Rightarrow> (Inr (Expert g u d m), fs)))"

subsection \<open>The Swapper\<close>

text \<open>
  The fields of \<open>__init__\<close>. \<open>pending_ops\<close> is a \<open>dict\<close> whose order \<open>flush\<close> iterates,
  hence an association list; its values are references to futures, here handles into
  \<open>futures\<close>, the objects the executor holds (a future overwritten in \<open>pending_ops\<close> still
  runs). \<open>files\<close> is the content of \<open>storage_dir\<close>: the file \<open><id>.pt\<close> under its id.
\<close>

record ('w, 'm) swapper =
  max_memory :: int
  prefetch_window :: int
  memory_cache :: "(string, ('w, 'm) pyval) ordered_dict"
  on_disk :: "string set"
  access_pattern :: "string list"
  pending_ops :: "(string \<times> nat) list"
  futures :: "nat \<Rightarrow> ('w, 'm) future"
  next_future :: nat
  files :: "('w, 'm) storage"

definition idle_future :: "('w, 'm) future" where
  "idle_future = \<lparr>job = LoadTask [], outcome = Some (Inl FileNotFoundError)\<rparr>"

text \<open>\<open>Swapper(storage_dir, max_memory_experts)\<close> on a directory with the files \<open>fs\<close>.\<close>

definition init :: "int \<Rightarrow> ('w, 'm) storage \<Rightarrow> ('w, 'm) swapper" where
  "init m fs =
     \<lparr>max_memory = m, prefetch_window = 2, memory_cache = od_empty, on_disk = {},
      access_pattern = [], pending_ops = [], futures = (\<lambda>_. idle_future),
      next_future = 0, files = fs\<rparr>"

definition future_done :: "nat \<Rightarrow> ('w, 'm) swapper \<Rightarrow> bool" where
  "future_done h s = (outcome (futures s h) \<noteq> None)"

text \<open>
  \<open>future.result()\<close>: the caller blocks until the worker has run the task; the task's
  effect on the files happens then, unless it happened before.
\<close>

definition future_result ::
  "nat \<Rightarrow> ('w, 'm) swapper \<Rightarrow> (error + ('w, 'm) pyval) \<times> ('w, 'm) swapper" where
  "future_result h s =
     (case outcome (futures s h) of
        Some r \<Rightarrow> (r, s)
      | None \<Rightarrow>
          (let (r, fs) = run_job (job (futures s h)) (files s)
           in (r, s\<lparr>futures := (futures s)(h := (futures s h)\<lparr>outcome := Some r\<rparr>),
                    files := fs\<rparr>)))"

text \<open>The worker thread finishing task \<open>h\<close> between two calls of the owner.\<close>

definition run_future :: "nat \<Rightarrow> ('w, 'm) swapper \<Rightarrow> ('w, 'm) swapper" where
  "run_future h s = snd (future_result h s)"

definition async_io_operation ::
  "('w, 'm) job \<Rightarrow> ('w, 'm) swapper \<Rightarrow> nat \<times> ('w, 'm) swapper" where
  "async_io_operation j s =
     (next_future s,
      s\<lparr>futures := (futures s)(next_future s := \<lparr>job = j, outcome = None\<rparr>),
        next_future := Suc (next_future s)\<rparr>)"

definition swap_out_lru :: "('w, 'm) swapper \<Rightarrow> ('w, 'm) swapper" where
  "swap_out_lru s =
     (case od_popitem_first (memory_cache s) of
        None \<Rightarrow> s
      | Some ((expert_id, data), c) \<Rightarrow>
          (let (h, s1) = async_io_operation (SaveTask expert_id data) (s\<lparr>memory_cache := c\<rparr>)
           in s1\<lparr>pending_ops := AList.update expert_id h (pending_ops s1),
                 on_disk := insert expert_id (on_disk s1)\<rparr>))"

text \<open>
  The loop of \<open>swap_in\<close>, \<open>while len(self.memory_cache) >= bound: self._swap_out_lru()\<close>.
  It does not end when the bound is not positive, so the result is an option and
  \<open>None\<close> is "never returns".
\<close>

partial_function (option) make_room ::
  "int \<Rightarrow> ('w, 'm) swapper \<Rightarrow> ('w, 'm) swapper option" where
  "make_room bound s =
     (if int (od_len (memory_cache s)) \<ge> bound then make_room bound (swap_out_lru s)
      else Some s)"

definition record_access :: "string \<Rightarrow> ('w, 'm) swapper \<Rightarrow> ('w, 'm) swapper" where
  "record_access expert_id s =
     (let ap = access_pattern s @ [expert_id]
      in s\<lparr>access_pattern := (if length ap > 100 then tl ap else ap)\<rparr>)"

text \<open>
  The part of \<open>swap_in\<close> after the pending operation has been dealt with (from the
  access history on). The result is \<open>None\<close> for Python's \<open>None\<close>.
\<close>

definition swap_in_body ::
  "string \<Rightarrow> bool \<Rightarrow> ('w, 'm) swapper \<Rightarrow>
   ((error + ('w, 'm) pyval option) \<times> ('w, 'm) swapper) option" where
  "swap_in_body expert_id background s0 =
     (let s = record_access expert_id s0 in
      if od_contains expert_id (memory_cache s) then
        (let s1 = s\<lparr>memory_cache := od_move_to_end expert_id (memory_cache s)\<rparr>
         in Some (Inr (if \<not> background then od_getitem expert_id (memory_cache s1) else None), s1))
      else
        (case make_room (max_memory s - (if background then 1 else 0)) s of
           None \<Rightarrow> None
         | Some s2 \<Rightarrow>
             if background then
               (let (h, s3) = async_io_operation (LoadTask expert_id) s2
                in Some (Inr None, s3\<lparr>pending_ops := AList.update expert_id h (pending_ops s3)\<rparr>))
             else
               (case files s2 expert_id of
                  None \<Rightarrow> Some (Inl FileNotFoundError, s2)
                | Some (g, u, d, m) \<Rightarrow>
                    Some (Inr (Some (Expert g u d m)),
                          s2\<lparr>memory_cache :=
                               od_move_to_end expert_id
                                 (od_setitem expert_id (Expert g u d m) (memory_cache s2)),
                             on_disk := on_disk s2 - {expert_id}\<rparr>))))"

definition swap_in ::
  "string \<Rightarrow> bool \<Rightarrow> ('w, 'm) swapper \<Rightarrow>
   ((error + ('w, 'm) pyval option) \<times> ('w, 'm) swapper) option" where
  "swap_in expert_id background s =
     (case map_of (pending_ops s) expert_id of
        None \<Rightarrow> swap_in_body expert_id background s
      | Some h \<Rightarrow>
          if future_done h s then
            swap_in_body expert_id background
              (s\<lparr>pending_ops := AList.delete expert_id (pending_ops s)\<rparr>)
          else if \<not> background then
            (case future_result h s of
               (Inl e, s1) \<Rightarrow> Some (Inl e, s1)
             | (Inr _, s1) \<Rightarrow> swap_in_body expert_id background s1)
          else Some (Inr None, s))"

text \<open>
  \<open>swap_out\<close>: the dictionary for \<open>torch.save\<close> is built from \<open>data[0]\<close>..\<open>data[3]\<close>
  before anything is written. \<open>force\<close> is not read.
\<close>

definition swap_out ::
  "string \<Rightarrow> bool \<Rightarrow> ('w, 'm) swapper \<Rightarrow> (error + unit) \<times> ('w, 'm) swapper" where
  "swap_out expert_id force s =
     (case od_getitem expert_id (memory_cache s) of
        None \<Rightarrow> (Inr (), s)
      | Some data \<Rightarrow>
          (case data of
             PyTrue \<Rightarrow> (Inl TypeError, s)
           | Expert g u d m \<Rightarrow>
               (Inr (),
                s\<lparr>files := (files s)(expert_id \<mapsto> (g, u, d, m)),
                  memory_cache := od_delitem expert_id (memory_cache s),
                  on_disk := insert expert_id (on_disk s)\<rparr>)))"

text \<open>
  \<open>future.wait(timeout)\<close> is the executor's; whether the task finishes before the
  deadline is not decided by the Swapper, so the argument carries it: \<open>None\<close> is
  \<open>timeout=None\<close>, \<open>Some Completes\<close> a timeout within which the task finishes
  (\<open>wait\<close> returns true), \<open>Some Expires\<close> one that runs out (\<open>wait\<close> returns false).
\<close>

datatype wait = Completes | Expires

text \<open>
  Lines 160-163 and 166-169 of \<open>get_expert\<close>: take the result of the future, drop the
  pending entry, store the result in the cache and return its first three components.
\<close>

definition admit_result ::
  "string \<Rightarrow> nat \<Rightarrow> ('w, 'm) swapper \<Rightarrow> (error + ('w \<times> 'w \<times> 'w)) \<times> ('w, 'm) swapper" where
  "admit_result expert_id h s =
     (case future_result h s of
        (Inl e, s1) \<Rightarrow> (Inl e, s1)
      | (Inr data, s1) \<Rightarrow>
          (slice3 data,
           s1\<lparr>pending_ops := AList.delete expert_id (pending_ops s1),
              memory_cache := od_setitem expert_id data (memory_cache s1)\<rparr>))"

text \<open>Line 174: \<open>self.swap_in(expert_id, background=False)[:3]\<close>.\<close>

definition get_expert_fallback ::
  "string \<Rightarrow> ('w, 'm) swapper \<Rightarrow>
   ((error + ('w \<times> 'w \<times> 'w)) \<times> ('w, 'm) swapper) option" where
  "get_expert_fallback expert_id s =
     (case swap_in expert_id False s of
        None \<Rightarrow> None
      | Some (Inl e, s1) \<Rightarrow> Some (Inl e, s1)
      | Some (Inr None, s1) \<Rightarrow> Some (Inl TypeError, s1)
      | Some (Inr (Some data), s1) \<Rightarrow> Some (slice3 data, s1))"

definition get_expert ::
  "string \<Rightarrow> wait option \<Rightarrow> ('w, 'm) swapper \<Rightarrow>
   ((error + ('w \<times> 'w \<times> 'w)) \<times> ('w, 'm) swapper) option" where
  "get_expert expert_id timeout s =
     (case od_getitem expert_id (memory_cache s) of
        Some data \<Rightarrow>
          Some (slice3 data, s\<lparr>memory_cache := od_move_to_end expert_id (memory_cache s)\<rparr>)
      | None \<Rightarrow>
          (case map_of (pending_ops s) expert_id of
             None \<Rightarrow> get_expert_fallback expert_id s
           | Some h \<Rightarrow>
               if future_done h s then Some (admit_result expert_id h s)
               else
                 (case timeout of
                    None \<Rightarrow> get_expert_fallback expert_id s
                  | Some Completes \<Rightarrow> Some (admit_result expert_id h s)
                  | Some Expires \<Rightarrow> Some (Inl TimeoutError, s))))"

text \<open>\<open>register_expert\<close>; \<open>.cpu().pin_memory()\<close> keeps the content of a tensor.\<close>

definition register_expert ::
  "string \<Rightarrow> 'w \<Rightarrow> 'w \<Rightarrow> 'w \<Rightarrow> 'm \<Rightarrow> bool \<Rightarrow> ('w, 'm) swapper \<Rightarrow> ('w, 'm) swapper" where
  "register_expert expert_id gate up down metadata persist s =
     (let data = Expert gate up down metadata;
          s1 = s\<lparr>memory_cache :=
                   od_move_to_end expert_id (od_setitem expert_id data (memory_cache s))\<rparr>
      in if persist then
           (let (h, s2) = async_io_operation (SaveTask expert_id data) s1
            in s2\<lparr>pending_ops := AList.update expert_id h (pending_ops s2),
                  on_disk := insert expert_id (on_disk s2)\<rparr>)
         else s1)"

text \<open>\<open>unregister_expert\<close>; \<open>os.remove\<close> raises when the file does not exist.\<close>

definition unregister_expert ::
  "string \<Rightarrow> ('w, 'm) swapper \<Rightarrow> (error + unit) \<times> ('w, 'm) swapper" where
  "unregister_expert expert_id s =
     (let s1 = (if od_contains expert_id (memory_cache s)
                then s\<lparr>memory_cache := od_delitem expert_id (memory_cache s)\<rparr> else s)
      in if expert_id \<in> on_disk s1 then
           (case files s1 expert_id of
              None \<Rightarrow> (Inl FileNotFoundError, s1)
            | Some _ \<Rightarrow>
                (Inr (), s1\<lparr>files := (files s1)(expert_id := None),
                            on_disk := on_disk s1 - {expert_id}\<rparr>))
         else (Inr (), s1))"

text \<open>
  \<open>flush\<close> walks a snapshot of the keys of \<open>pending_ops\<close>; \<open>result()\<close> raises the error
  of a failed task, which ends the walk with the remaining entries in place.
\<close>

fun flush_loop :: "string list \<Rightarrow> ('w, 'm) swapper \<Rightarrow> (error + unit) \<times> ('w, 'm) swapper" where
  "flush_loop [] s = (Inr (), s)"
| "flush_loop (expert_id # ks) s =
     (case map_of (pending_ops s) expert_id of
        None \<Rightarrow> (Inl KeyError, s)
      | Some h \<Rightarrow>
          if future_done h s then
            flush_loop ks (s\<lparr>pending_ops := AList.delete expert_id (pending_ops s)\<rparr>)
          else
            (case future_result h s of
               (Inl e, s1) \<Rightarrow> (Inl e, s1)
             | (Inr _, s1) \<Rightarrow>
                 flush_loop ks (s1\<lparr>pending_ops := AList.delete expert_id (pending_ops s1)\<rparr>)))"

definition flush :: "('w, 'm) swapper \<Rightarrow> (error + unit) \<times> ('w, 'm) swapper" where
  "flush s = flush_loop (map fst (pending_ops s)) s"

subsection \<open>Runs\<close>

text \<open>
  A call of a public method by the owner thread, or the worker finishing a task in
  between. \<open>step\<close> gives the state a call leaves behind, whether it returned or raised;
  \<open>None\<close> when the call never returns.
\<close>

datatype ('w, 'm) call =
    SwapIn string bool
  | SwapOut string bool
  | GetExpert string "wait option"
  | RegisterExpert string 'w 'w 'w 'm bool
  | UnregisterExpert string
  | Flush
  | WorkerRuns nat

fun step :: "('w, 'm) call \<Rightarrow> ('w, 'm) swapper \<Rightarrow> ('w, 'm) swapper option" where
  "step (SwapIn k b) s = map_option snd (swap_in k b s)"
| "step (SwapOut k f) s = Some (snd (swap_out k f s))"
| "step (GetExpert k t) s = map_option snd (get_expert k t s)"
| "step (RegisterExpert k g u d m p) s = Some (register_expert k g u d m p s)"
| "step (UnregisterExpert k) s = Some (snd (unregister_expert k s))"
| "step Flush s = Some (snd (flush s))"
| "step (WorkerRuns h) s = Some (run_future h s)"

fun run :: "('w, 'm) call list \<Rightarrow> ('w, 'm) swapper \<Rightarrow> ('w, 'm) swapper option" where
  "run [] s = Some s"
| "run (c # cs) s = (case step c s of None \<Rightarrow> None | Some s1 \<Rightarrow> run cs s1)"

declare make_room.simps [code]

subsection \<open>Write-backs\<close>





subsection \<open>Recency\<close>

text \<open>
  How long ago a key was last promoted or inserted: the number of promotions and
  insertions, of any key, that the cache has seen since. The least recently promoted or
  inserted resident is the one of greatest age.
\<close>

definition touch_age :: "'k list \<Rightarrow> 'k \<Rightarrow> nat" where
  "touch_age t k = length (takeWhile (\<lambda>x. x \<noteq> k) t)"

text \<open>A list of distinct keys, all promoted or inserted at some time, in order of decreasing age.\<close>

definition ordered_keys :: "'k list \<Rightarrow> 'k list \<Rightarrow> bool" where
  "ordered_keys t ks \<longleftrightarrow>
     distinct ks \<and> set ks \<subseteq> set t \<and> sorted_wrt (\<lambda>a b. touch_age t b < touch_age t a) ks"

text \<open>The iteration order of the dictionary is the order of decreasing age.\<close>

definition recency_ordered :: "('k, 'v) ordered_dict \<Rightarrow> bool" where
  "recency_ordered d \<longleftrightarrow>
     distinct (od_keys d) \<and> set (od_keys d) \<subseteq> set (touched d) \<and>
     sorted_wrt (\<lambda>a b. touch_age (touched d) b < touch_age (touched d) a) (od_keys d)"


subsection \<open>Concrete states\<close>

text \<open>An expert registered with \<open>persist=True\<close> in a fresh Swapper; the save has not run.\<close>

definition fresh_registered :: "(nat, nat) swapper" where
  "fresh_registered = register_expert ''X'' 1 2 3 4 True (init 8 Map.empty)"

text \<open>A fresh Swapper after \<open>swap_in('X', background=True)\<close>; the load has not run.\<close>

definition background_loading :: "(nat, nat) swapper" where
  "background_loading = snd (the (swap_in ''X'' True (init 2 Map.empty)))"

text \<open>
  Three experts on disk and a fresh Swapper of capacity two, after the synchronous
  \<open>swap_in('A')\<close>, \<open>swap_in('B')\<close>, \<open>swap_in('C')\<close>: the third call has evicted \<open>A\<close>
  and submitted its write-back, which has not run.
\<close>

definition three_files :: "(nat, nat) storage" where
  "three_files = [''A'' \<mapsto> (1, 2, 3, 4), ''B'' \<mapsto> (5, 6, 7, 8), ''C'' \<mapsto> (9, 10, 11, 12)]"

definition after_ABC :: "(nat, nat) swapper" where
  "after_ABC =
     \<lparr>max_memory = 2, prefetch_window = 2,
      memory_cache = \<lparr>items = [(''B'', Expert 5 6 7 8), (''C'', Expert 9 10 11 12)],
                      touched = [''C'', ''C'', ''B'', ''B'', ''A'', ''A'']\<rparr>,
      on_disk = {''A''}, access_pattern = [''A'', ''B'', ''C''],
      pending_ops = [(''A'', 0)],
      futures = (\<lambda>_. idle_future)(0 := \<lparr>job = SaveTask ''A'' (Expert 1 2 3 4), outcome = None\<rparr>),
      next_future = 1, files = three_files\<rparr>"

text \<open>
  A fresh Swapper on an empty directory after \<open>register_expert('X', 1, 2, 3, 4)\<close>, the
  save and \<open>swap_out('X')\<close>.
\<close>

definition swapped_out_X :: "(nat, nat) swapper" where
  "swapped_out_X =
     \<lparr>max_memory = 8, prefetch_window = 2,
      memory_cache = \<lparr>items = [], touched = [''X'', ''X'']\<rparr>,
      on_disk = {''X''}, access_pattern = [],
      pending_ops = [(''X'', 0)],
      futures = (\<lambda>_. idle_future)
        (0 := \<lparr>job = SaveTask ''X'' (Expert 1 2 3 4), outcome = Some (Inr PyTrue)\<rparr>),
      next_future = 1, files = [''X'' \<mapsto> (1, 2, 3, 4)]\<rparr>"

section \<open>Properties\<close>

lemmas od_defs = od_empty_def od_keys_def od_len_def od_contains_def od_getitem_def
  od_setitem_def od_move_to_end_def od_popitem_first_def od_delitem_def

lemmas executor_defs = run_job_def future_done_def future_result_def run_future_def
  async_io_operation_def idle_future_def

lemmas swapper_defs = init_def swap_out_lru_def record_access_def swap_in_body_def swap_in_def
  swap_out_def slice3_def admit_result_def get_expert_fallback_def get_expert_def
  register_expert_def unregister_expert_def flush_def

subsection \<open>The eviction loop\<close>

lemma swap_out_lru_empty: "items (memory_cache s) = [] \<Longrightarrow> swap_out_lru s = s"
  by (simp add: swap_out_lru_def od_popitem_first_def)

lemma swap_out_lru_items: "items (memory_cache (swap_out_lru s)) = tl (items (memory_cache s))"
  by (simp add: swap_out_lru_def od_popitem_first_def async_io_operation_def
      split: list.splits prod.splits)

lemma swap_out_lru_len: "od_len (memory_cache (swap_out_lru s)) = od_len (memory_cache s) - 1"
  by (simp add: od_len_def swap_out_lru_items)

text \<open>The loop returns only for a positive bound \<dots>\<close>

lemma make_room_Some_bound: "make_room b t = Some r \<Longrightarrow> 1 \<le> b"
  by (rule make_room.raw_induct[where P = "\<lambda>b t r. 1 \<le> b"])
     (auto split: if_splits)

lemma make_room_diverges: "bound \<le> 0 \<Longrightarrow> make_room bound s = None"
  using make_room_Some_bound[of bound s] by (cases "make_room bound s") auto

text \<open>\<dots> and then it evicts just as many entries as bring the length below the bound.\<close>

lemma make_room_returns:
  "1 \<le> bound \<Longrightarrow>
   make_room bound s = Some ((swap_out_lru ^^ nat (int (od_len (memory_cache s)) - bound + 1)) s)"
proof (induction "od_len (memory_cache s)" arbitrary: s)
  case 0
  then show ?case by (subst make_room.simps) simp
next
  case (Suc n)
  have len: "od_len (memory_cache (swap_out_lru s)) = n"
    using Suc.hyps(2) by (simp add: swap_out_lru_len)
  show ?case
  proof (cases "int (od_len (memory_cache s)) \<ge> bound")
    case True
    have "make_room bound s = make_room bound (swap_out_lru s)"
      using True by (subst make_room.simps) simp
    also have "\<dots> = Some ((swap_out_lru ^^ nat (int n - bound + 1)) (swap_out_lru s))"
      using Suc.hyps(1)[OF len[symmetric] Suc.prems] len by simp
    also have "nat (int (od_len (memory_cache s)) - bound + 1) = Suc (nat (int n - bound + 1))"
      using True Suc.hyps(2) by linarith
    then have "(swap_out_lru ^^ nat (int n - bound + 1)) (swap_out_lru s)
             = (swap_out_lru ^^ nat (int (od_len (memory_cache s)) - bound + 1)) s"
      by (simp add: funpow_swap1)
    finally show ?thesis .
  next
    case False
    then show ?thesis by (subst make_room.simps) simp
  qed
qed

lemmas eval_simps = swapper_defs od_defs executor_defs make_room_returns Let_def
  three_files_def numeral_eq_Suc

subsection \<open>Background swap-in\<close>

text \<open>
  Claim C9 (background \<open>swap_in\<close> returns \<open>None\<close> in every state). With
  \<open>max_memory_experts = 1\<close> the bound of the eviction loop is \<open>1 - 1 = 0\<close>, the test
  \<open>len(self.memory_cache) >= 0\<close> holds for ever and \<open>_swap_out_lru\<close> returns at once on an
  empty cache: \<open>swap_in('X', background=True)\<close> on a fresh Swapper of capacity one never
  returns, where the docstring promises \<open>None\<close>. Whenever a background call does
  return, it returns \<open>None\<close>, and with a capacity of at least two it always returns
  (lemmas \<open>background_swap_in_yields_none\<close>, \<open>background_swap_in_returns\<close> below).
\<close>

theorem background_swap_in_capacity_one_never_returns:
  "swap_in ''X'' True (init 1 fs) = None"
  by (simp add: swap_in_def swap_in_body_def init_def record_access_def od_defs
      make_room_diverges)

subsection \<open>Timeout\<close>

text \<open>
  Claim C7 as stated (a pending operation that is not done makes \<open>get_expert\<close> with an
  expired deadline raise \<open>TimeoutError\<close>) fails for a resident id: \<open>get_expert\<close> looks
  into the cache first. Right after \<open>register_expert\<close> the save is pending and not done,
  and \<open>get_expert\<close> returns the payloads.
\<close>

theorem timeout_on_resident_counterexample:
  "map_of (pending_ops fresh_registered) ''X'' = Some 0 \<and>
   \<not> future_done 0 fresh_registered \<and>
   get_expert ''X'' (Some Expires) fresh_registered =
     Some (Inr (1, 2, 3),
           fresh_registered\<lparr>memory_cache :=
             od_move_to_end ''X'' (memory_cache fresh_registered)\<rparr>)"
  by (simp add: fresh_registered_def swapper_defs od_defs executor_defs Let_def)

text \<open>
  Claim C7, amended: for an id that is not resident and has a pending operation that is not
  done, \<open>get_expert\<close> with a deadline that expires raises \<open>TimeoutError\<close> and leaves the
  whole state as it was, the pending entry and its future included.
\<close>

theorem timeout_leaves_state:
  assumes "od_getitem expert_id (memory_cache s) = None"
    and "map_of (pending_ops s) expert_id = Some h"
    and "\<not> future_done h s"
  shows "get_expert expert_id (Some Expires) s = Some (Inl TimeoutError, s)"
  using assms by (simp add: get_expert_def)

lemma background_loading_eq:
  "swap_in ''X'' True (init 2 Map.empty) = Some (Inr None, background_loading)"
  unfolding background_loading_def
  by (simp add: swapper_defs od_defs executor_defs make_room_returns Let_def)

lemma background_loading_facts:
  "od_getitem ''X'' (memory_cache background_loading) = None"
  "map_of (pending_ops background_loading) ''X'' = Some 0"
  "\<not> future_done 0 background_loading"
  unfolding background_loading_def
  by (simp_all add: swapper_defs od_defs executor_defs make_room_returns Let_def)

theorem timeout_leaves_state_witness:
  "od_getitem ''X'' (memory_cache background_loading) = None \<and>
   map_of (pending_ops background_loading) ''X'' = Some 0 \<and>
   \<not> future_done 0 background_loading \<and>
   get_expert ''X'' (Some Expires) background_loading =
     Some (Inl TimeoutError, background_loading)"
  using timeout_leaves_state[of "''X''" background_loading 0] background_loading_facts
  by simp

subsection \<open>What an eviction changes\<close>

lemma swap_out_lru_frame [simp]:
  "max_memory (swap_out_lru s) = max_memory s"
  "files (swap_out_lru s) = files s"
  "access_pattern (swap_out_lru s) = access_pattern s"
  "touched (memory_cache (swap_out_lru s)) = touched (memory_cache s)"
  by (simp_all add: swap_out_lru_def od_popitem_first_def async_io_operation_def
      split: list.splits prod.splits)

lemma swap_out_lru_next_future:
  "next_future (swap_out_lru s) =
     (if items (memory_cache s) = [] then next_future s else Suc (next_future s))"
  by (simp add: swap_out_lru_def od_popitem_first_def async_io_operation_def
      split: list.splits prod.splits)

lemma swap_out_lru_futures:
  "h < next_future s \<Longrightarrow> futures (swap_out_lru s) h = futures s h"
  by (simp add: swap_out_lru_def od_popitem_first_def async_io_operation_def
      split: list.splits prod.splits)

lemma swap_out_lru_pending:
  "k \<notin> fst ` set (items (memory_cache s)) \<Longrightarrow>
   map_of (pending_ops (swap_out_lru s)) k = map_of (pending_ops s) k"
  by (auto simp add: swap_out_lru_def od_popitem_first_def async_io_operation_def update_conv'
      split: list.splits prod.splits)


lemma evict_n_frame [simp]:
  "max_memory ((swap_out_lru ^^ n) s) = max_memory s"
  "files ((swap_out_lru ^^ n) s) = files s"
  "access_pattern ((swap_out_lru ^^ n) s) = access_pattern s"
  "touched (memory_cache ((swap_out_lru ^^ n) s)) = touched (memory_cache s)"
  by (induction n) simp_all

lemma evict_n_items: "items (memory_cache ((swap_out_lru ^^ n) s)) = drop n (items (memory_cache s))"
  by (induction n) (simp_all add: swap_out_lru_items drop_Suc tl_drop)

lemma evict_n_next_future: "next_future s \<le> next_future ((swap_out_lru ^^ n) s)"
  by (induction n) (simp_all add: swap_out_lru_next_future le_Suc_eq)

lemma evict_n_futures:
  "h < next_future s \<Longrightarrow> futures ((swap_out_lru ^^ n) s) h = futures s h"
proof (induction n)
  case 0
  then show ?case by simp
next
  case (Suc n)
  have "h < next_future ((swap_out_lru ^^ n) s)"
    using Suc.prems evict_n_next_future[of s n] by linarith
  then show ?case using Suc by (simp add: swap_out_lru_futures)
qed

lemma evict_n_pending:
  "k \<notin> fst ` set (items (memory_cache s)) \<Longrightarrow>
   map_of (pending_ops ((swap_out_lru ^^ n) s)) k = map_of (pending_ops s) k"
proof (induction n)
  case 0
  then show ?case by simp
next
  case (Suc n)
  have "k \<notin> fst ` set (items (memory_cache ((swap_out_lru ^^ n) s)))"
    using Suc.prems by (auto simp: evict_n_items dest: in_set_dropD)
  then show ?case using Suc by (simp add: swap_out_lru_pending)
qed



lemma future_result_frame [simp]:
  "pending_ops (snd (future_result h s)) = pending_ops s"
  "memory_cache (snd (future_result h s)) = memory_cache s"
  "next_future (snd (future_result h s)) = next_future s"
  "max_memory (snd (future_result h s)) = max_memory s"
  "on_disk (snd (future_result h s)) = on_disk s"
  "access_pattern (snd (future_result h s)) = access_pattern s"
  by (simp_all add: future_result_def split: option.splits prod.splits)

lemma future_result_done [simp]: "future_done h (snd (future_result h s))"
  by (simp add: future_result_def future_done_def split: option.splits prod.splits)

lemma record_access_frame [simp]:
  "pending_ops (record_access k s) = pending_ops s"
  "memory_cache (record_access k s) = memory_cache s"
  "next_future (record_access k s) = next_future s"
  "max_memory (record_access k s) = max_memory s"
  "on_disk (record_access k s) = on_disk s"
  "futures (record_access k s) = futures s"
  "files (record_access k s) = files s"
  by (simp_all add: record_access_def Let_def)

lemma map_of_None_iff: "map_of xs k = None \<longleftrightarrow> k \<notin> fst ` set xs"
  by (simp add: map_of_eq_None_iff)

text \<open>When a background \<open>swap_in\<close> returns, it returns \<open>None\<close>; with room for two it returns.\<close>

lemma background_swap_in_yields_none:
  "swap_in expert_id True s = Some (r, s') \<Longrightarrow> r = Inr None"
  by (auto simp: swap_in_def swap_in_body_def Let_def async_io_operation_def
      split: option.splits if_splits prod.splits)

lemma background_swap_in_returns:
  "2 \<le> max_memory s \<Longrightarrow> swap_in expert_id True s \<noteq> None"
  by (auto simp: swap_in_def swap_in_body_def Let_def async_io_operation_def make_room_returns
      split: option.splits if_splits prod.splits)

subsection \<open>Blocking on a pending operation\<close>

text \<open>What the body of a synchronous \<open>swap_in\<close> leaves of a pending entry and its future.\<close>

lemma swap_in_body_keeps_pending:
  assumes "swap_in_body k False s = Some (r, s')" and "h < next_future s"
  shows "map_of (pending_ops s') k = map_of (pending_ops s) k \<and> futures s' h = futures s h"
proof (cases "od_contains k (memory_cache s)")
  case True
  then show ?thesis using assms by (auto simp: swap_in_body_def Let_def)
next
  case False
  then have notin: "k \<notin> fst ` set (items (memory_cache (record_access k s)))"
    by (simp add: od_contains_def map_of_None_iff)
  from False assms(1) obtain s2 where
    mr: "make_room (max_memory s) (record_access k s) = Some s2"
    by (auto simp: swap_in_body_def Let_def split: option.splits)
  then have "1 \<le> max_memory s" by (rule make_room_Some_bound)
  with mr obtain n where s2: "s2 = (swap_out_lru ^^ n) (record_access k s)"
    by (auto simp add: make_room_returns)
  have "map_of (pending_ops s2) k = map_of (pending_ops s) k"
    unfolding s2 using evict_n_pending[OF notin] by simp
  moreover have "futures s2 h = futures s h"
    unfolding s2 using evict_n_futures[of h "record_access k s"] assms(2) by simp
  ultimately show ?thesis
    using False assms(1) mr by (auto simp: swap_in_body_def Let_def split: option.splits)
qed

lemma swap_in_body_returns:
  "1 \<le> max_memory s \<Longrightarrow> swap_in_body k False s \<noteq> None"
  by (auto simp: swap_in_body_def Let_def make_room_returns split: option.splits)

text \<open>
  Claim C10: a synchronous \<open>swap_in\<close> that finds a pending operation for its id that is
  not done waits for it (line 84) and does not delete the entry: when the call is over,
  returned or raised, the table still maps the id to the same future, which is now done.
  The future is one that \<open>submit\<close> has handed out (\<open>h < next_future s\<close>). With a positive
  capacity the call does come back.
\<close>

theorem blocking_swap_in_keeps_pending_entry:
  assumes "map_of (pending_ops s) expert_id = Some h"
    and "\<not> future_done h s"
    and "h < next_future s"
  shows "(\<forall>r s'. swap_in expert_id False s = Some (r, s') \<longrightarrow>
            map_of (pending_ops s') expert_id = Some h \<and> future_done h s') \<and>
         (1 \<le> max_memory s \<longrightarrow> swap_in expert_id False s \<noteq> None)"
proof -
  obtain r0 s1 where fr: "future_result h s = (r0, s1)" by (cases "future_result h s")
  then have s1: "s1 = snd (future_result h s)" by simp
  have p1: "map_of (pending_ops s1) expert_id = Some h" and d1: "future_done h s1"
    and n1: "h < next_future s1" and m1: "max_memory s1 = max_memory s"
    using assms by (simp_all add: s1)
  have "map_of (pending_ops s') expert_id = Some h \<and> future_done h s'"
    if "swap_in expert_id False s = Some (r, s')" for r s'
  proof (cases r0)
    case (Inl e)
    then show ?thesis using that assms fr p1 d1 by (simp add: swap_in_def)
  next
    case (Inr v)
    then have "swap_in_body expert_id False s1 = Some (r, s')"
      using that assms fr by (simp add: swap_in_def)
    from swap_in_body_keeps_pending[OF this n1] p1 d1 show ?thesis
      by (simp add: future_done_def)
  qed
  moreover have "swap_in expert_id False s \<noteq> None" if "1 \<le> max_memory s"
    using that assms fr swap_in_body_returns[of s1 expert_id] m1
    by (cases r0) (simp_all add: swap_in_def)
  ultimately show ?thesis by blast
qed






theorem blocking_swap_in_keeps_pending_entry_witness:
  "map_of (pending_ops after_ABC) ''A'' = Some 0 \<and> \<not> future_done 0 after_ABC \<and>
   0 < next_future after_ABC \<and> 1 \<le> max_memory after_ABC \<and>
   swap_in ''A'' False after_ABC \<noteq> None \<and>
   map_of (pending_ops (snd (the (swap_in ''A'' False after_ABC)))) ''A'' = Some 0 \<and>
   future_done 0 (snd (the (swap_in ''A'' False after_ABC)))"
proof -
  have h: "map_of (pending_ops after_ABC) ''A'' = Some 0" "\<not> future_done 0 after_ABC"
    "0 < next_future after_ABC" "1 \<le> max_memory after_ABC"
    by (simp_all add: after_ABC_def future_done_def)
  from blocking_swap_in_keeps_pending_entry[OF h(1,2,3)] h(4)
  obtain r s' where "swap_in ''A'' False after_ABC = Some (r, s')"
    and "map_of (pending_ops s') ''A'' = Some 0 \<and> future_done 0 s'"
    by fastforce
  with h show ?thesis by simp
qed

subsection \<open>Eviction under pressure\<close>

lemma get_expert_while_write_back_runs:
  "map_option (\<lambda>(r, s). (r, items (memory_cache s))) (get_expert ''A'' None after_ABC) =
     Some (Inr (1, 2, 3), [(''C'', Expert 9 10 11 12), (''A'', Expert 1 2 3 4)])"
  by (simp add: after_ABC_def eval_simps)

text \<open>
  Claim C2 (eviction under pressure). The first half holds: after the three calls the
  residents are \<open>B\<close> and \<open>C\<close>, and \<open>A\<close> has been evicted with its write-back
  submitted. The second half holds only while that write-back has not run (lemma
  \<open>get_expert_while_write_back_runs\<close>). Once it has, \<open>get_expert('A')\<close> finds the
  done future of the save in \<open>pending_ops\<close>, takes its result \<open>True\<close> for the expert,
  stores it in the cache beside \<open>B\<close> and \<open>C\<close> and raises \<open>TypeError\<close> on \<open>True[:3]\<close>.
\<close>

theorem get_expert_after_write_back_raises:
  "run [SwapIn ''A'' False, SwapIn ''B'' False, SwapIn ''C'' False] (init 2 three_files)
     = Some after_ABC \<and>
   od_keys (memory_cache after_ABC) = [''B'', ''C''] \<and>
   map_option (\<lambda>(r, s). (r, items (memory_cache s)))
     (get_expert ''A'' None (run_future 0 after_ABC)) =
     Some (Inl TypeError,
           [(''B'', Expert 5 6 7 8), (''C'', Expert 9 10 11 12), (''A'', PyTrue)])"
  by (simp add: after_ABC_def eval_simps)

subsection \<open>Capacity\<close>

lemma od_len_move_to_end: "od_len (od_move_to_end k d) \<le> od_len d"
proof -
  have "map_of xs k = Some v \<Longrightarrow> Suc (length (AList.delete k xs)) \<le> length xs"
    for xs :: "('a \<times> 'b) list" and v
    by (induction xs) (auto simp: le_SucI length_filter_le AList.delete_eq split: if_splits)
  then show ?thesis
    by (auto simp: od_len_def od_move_to_end_def split: option.splits)
qed

lemma od_len_setitem: "od_len (od_setitem k v d) \<le> Suc (od_len d)"
proof -
  have "length (AList.update k v xs) \<le> Suc (length xs)" for xs :: "('a \<times> 'b) list"
    by (induction xs) auto
  then show ?thesis by (simp add: od_len_def od_setitem_def)
qed

lemma evict_n_len: "od_len (memory_cache ((swap_out_lru ^^ n) s)) = od_len (memory_cache s) - n"
  by (simp add: od_len_def evict_n_items)

text \<open>A synchronous swap_in by itself keeps the cache within the capacity.\<close>

lemma synchronous_swap_in_capacity:
  assumes "swap_in expert_id False s = Some (r, s')"
    and "int (od_len (memory_cache s)) \<le> max_memory s"
  shows "int (od_len (memory_cache s')) \<le> max_memory s'"
proof -
  have body: "int (od_len (memory_cache s')) \<le> max_memory s'"
    if b: "swap_in_body expert_id False t = Some (r, s')"
      and le: "int (od_len (memory_cache t)) \<le> max_memory t" for t
  proof (cases "od_contains expert_id (memory_cache t)")
    case True
    then show ?thesis
      using b le od_len_move_to_end[of expert_id "memory_cache t"]
      by (auto simp: swap_in_body_def Let_def)
  next
    case False
    with b obtain s2 where mr: "make_room (max_memory t) (record_access expert_id t) = Some s2"
      by (auto simp: swap_in_body_def Let_def split: option.splits)
    then have pos: "1 \<le> max_memory t" by (rule make_room_Some_bound)
    with mr have s2: "s2 = (swap_out_lru ^^ nat (int (od_len (memory_cache t)) - max_memory t + 1))
                         (record_access expert_id t)"
      by (simp add: make_room_returns)
    have len2: "int (od_len (memory_cache s2)) < max_memory t" and m2: "max_memory s2 = max_memory t"
      using pos le by (simp_all add: s2 evict_n_len)
    show ?thesis
    proof (cases "files s2 expert_id")
      case None
      then show ?thesis using False b mr len2 m2 by (simp add: swap_in_body_def Let_def)
    next
      case (Some rec)
      obtain g u d m where rec: "rec = (g, u, d, m)" by (cases rec)
      let ?c = "od_move_to_end expert_id (od_setitem expert_id (Expert g u d m) (memory_cache s2))"
      have "od_len ?c \<le> Suc (od_len (memory_cache s2))"
        using od_len_move_to_end[of expert_id "od_setitem expert_id (Expert g u d m) (memory_cache s2)"]
          od_len_setitem[of expert_id "Expert g u d m" "memory_cache s2"]
        by linarith
      then show ?thesis using False b mr len2 m2 Some rec
        by (auto simp: swap_in_body_def Let_def)
    qed
  qed
  have fr: "memory_cache s1 = memory_cache s \<and> max_memory s1 = max_memory s"
    if "future_result h s = (x, s1)" for h x s1
    using that future_result_frame(2,4)[of h s] by simp
  show ?thesis
  proof (cases "map_of (pending_ops s) expert_id")
    case None
    then show ?thesis using assms body[of s] by (simp add: swap_in_def)
  next
    case (Some h)
    obtain x s1 where f: "future_result h s = (x, s1)" by (cases "future_result h s")
    show ?thesis
    proof (cases "future_done h s")
      case True
      then show ?thesis
        using assms Some body[of "s\<lparr>pending_ops := AList.delete expert_id (pending_ops s)\<rparr>"]
        by (simp add: swap_in_def)
    next
      case False
      then show ?thesis
        using assms Some f fr[OF f] body[of s1]
        by (cases x) (auto simp: swap_in_def)
    qed
  qed
qed

text \<open>
  Claim C1 (capacity bound under synchronous calls). The same path of \<open>get_expert\<close>
  admits the result of a finished future without making room: from a fresh Swapper of
  capacity two, after three synchronous \<open>swap_in\<close>, the write-back of \<open>A\<close> finishing
  and \<open>get_expert('A')\<close>, the cache holds three entries; \<open>get_expert('B')\<close> then returns
  normally with three entries resident. A synchronous \<open>swap_in\<close> alone keeps the bound
  (lemma \<open>synchronous_swap_in_capacity\<close>).
\<close>

theorem synchronous_calls_exceed_capacity:
  "map_option (\<lambda>s. (od_len (memory_cache s), max_memory s, fst (the (get_expert ''B'' None s))))
     (run [SwapIn ''A'' False, SwapIn ''B'' False, SwapIn ''C'' False, WorkerRuns 0,
           GetExpert ''A'' None] (init 2 three_files)) =
     Some (3, 2, Inr (5, 6, 7)) \<and>
   map_option (\<lambda>s. od_len (memory_cache s))
     (run [SwapIn ''A'' False, SwapIn ''B'' False, SwapIn ''C'' False, WorkerRuns 0,
           GetExpert ''A'' None, GetExpert ''B'' None] (init 2 three_files)) = Some 3"
  by (simp add: eval_simps)

subsection \<open>Unregistering\<close>

text \<open>
  Claim C8 (after \<open>unregister_expert\<close> a synchronous \<open>swap_in\<close> raises
  \<open>FileNotFoundError\<close>). A synchronous load drops the id from \<open>on_disk\<close> (line 124)
  while the file stays, and \<open>unregister_expert\<close> removes the file only for an id in
  \<open>on_disk\<close>: after register, the save, \<open>swap_out\<close> and \<open>swap_in\<close>, the call
  \<open>unregister_expert('X')\<close> returns normally and \<open>swap_in('X')\<close> still loads the expert.
\<close>

theorem swap_in_after_unregister_succeeds:
  "map_option (\<lambda>s. (fst (unregister_expert ''X'' s),
                     map_option fst (swap_in ''X'' False (snd (unregister_expert ''X'' s)))))
     (run [RegisterExpert ''X'' 1 2 3 4 True, WorkerRuns 0, SwapOut ''X'' False,
           SwapIn ''X'' False] (init 8 Map.empty)) =
     Some (Inr (), Some (Inr (Some (Expert (1::nat) 2 3 (4::nat)))))"
  by (simp add: eval_simps)


subsection \<open>Flush\<close>

lemma pending_ops_future_result: "future_result h s = (r, s1) \<Longrightarrow> pending_ops s1 = pending_ops s"
  using future_result_frame(1)[of h s] by simp

lemma flush_loop_pending:
  "flush_loop ks s = (Inr (), s') \<Longrightarrow>
   pending_ops s' = filter (\<lambda>(k, _). k \<notin> set ks) (pending_ops s)"
proof (induction ks arbitrary: s)
  case Nil
  then show ?case by simp
next
  case (Cons k ks)
  have del: "filter (\<lambda>(k', _). k' \<notin> set ks) (AList.delete k xs)
           = filter (\<lambda>(k', _). k' \<notin> set (k # ks)) xs" for xs :: "(string \<times> nat) list"
    by (induction xs) (auto simp: AList.delete_eq)
  from Cons.prems obtain h where h: "map_of (pending_ops s) k = Some h"
    by (auto split: option.splits)
  show ?case
  proof (cases "future_done h s")
    case True
    with Cons.prems h have
      "flush_loop ks (s\<lparr>pending_ops := AList.delete k (pending_ops s)\<rparr>) = (Inr (), s')"
      by simp
    from Cons.IH[OF this] show ?thesis by (simp add: del)
  next
    case False
    obtain r s1 where fr: "future_result h s = (r, s1)" by (cases "future_result h s")
    with Cons.prems h False obtain v where r: "r = Inr v"
      by (cases r) auto
    with Cons.prems h False fr have
      "flush_loop ks (s1\<lparr>pending_ops := AList.delete k (pending_ops s1)\<rparr>) = (Inr (), s')"
      by simp
    from Cons.IH[OF this] pending_ops_future_result[OF fr] show ?thesis by (simp add: del)
  qed
qed

lemma flush_nothing_pending: "pending_ops s = [] \<Longrightarrow> flush s = (Inr (), s)"
  by (simp add: flush_def)

text \<open>
  Claim C6: when \<open>flush\<close> returns without raising, no operation is pending, and
  calling \<open>flush\<close> again, twice in a row, changes nothing either time.
\<close>

theorem flush_terminal_idempotent:
  assumes "flush s = (Inr (), s')"
  shows "pending_ops s' = [] \<and> flush s' = (Inr (), s') \<and> flush (snd (flush s')) = (Inr (), s')"
proof -
  have "pending_ops s' = filter (\<lambda>(k, _). k \<notin> fst ` set (pending_ops s)) (pending_ops s)"
    using flush_loop_pending[of "map fst (pending_ops s)" s s'] assms by (simp add: flush_def)
  also have "\<dots> = []" by (force simp: filter_empty_conv)
  finally have "pending_ops s' = []" .
  then show ?thesis by (simp add: flush_nothing_pending)
qed

theorem flush_terminal_idempotent_witness:
  "flush after_ABC = (Inr (), snd (flush after_ABC)) \<and>
   pending_ops after_ABC \<noteq> [] \<and>
   pending_ops (snd (flush after_ABC)) = [] \<and>
   flush (snd (flush after_ABC)) = (Inr (), snd (flush after_ABC))"
proof -
  have h: "flush after_ABC = (Inr (), snd (flush after_ABC))"
    by (simp add: after_ABC_def eval_simps)
  have "pending_ops after_ABC \<noteq> []" by (simp add: after_ABC_def)
  with flush_terminal_idempotent[OF h] h show ?thesis by simp
qed

subsection \<open>Round trip\<close>

lemma od_contains_delitem [simp]: "\<not> od_contains k (od_delitem k d)"
  by (simp add: od_contains_def od_delitem_def delete_conv')




subsection \<open>Least recently used\<close>

lemma touch_age_Cons: "touch_age (x # t) k = (if x = k then 0 else Suc (touch_age t k))"
  by (simp add: touch_age_def)

lemma recency_ordered_keys: "recency_ordered d = ordered_keys (touched d) (od_keys d)"
  by (simp add: recency_ordered_def ordered_keys_def)

lemma ordered_keys_filter: "ordered_keys t ks \<Longrightarrow> ordered_keys t (filter P ks)"
  by (auto simp: ordered_keys_def sorted_wrt_filter)

lemma ordered_keys_tl: "ordered_keys t ks \<Longrightarrow> ordered_keys t (tl ks)"
  by (cases ks) (auto simp: ordered_keys_def)

lemma ordered_keys_touch:
  assumes "ordered_keys t ks"
  shows "ordered_keys (k # t) (removeAll k ks @ [k])"
proof -
  let ?xs = "removeAll k ks"
  have d: "distinct ?xs" and sub: "set ?xs \<subseteq> set t"
    and srt: "sorted_wrt (\<lambda>a b. touch_age t b < touch_age t a) ?xs"
    using assms by (auto simp: ordered_keys_def removeAll_filter_not_eq sorted_wrt_filter
        distinct_removeAll)
  have "sorted_wrt (\<lambda>a b. touch_age (k # t) b < touch_age (k # t) a) ?xs"
    by (rule sorted_wrt_mono_rel[OF _ srt]) (auto simp: touch_age_Cons)
  moreover have "\<forall>x \<in> set ?xs. touch_age (k # t) k < touch_age (k # t) x"
    by (auto simp: touch_age_Cons)
  ultimately show ?thesis
    using d sub by (auto simp: ordered_keys_def sorted_wrt_append)
qed

lemma recency_ordered_empty [simp]: "recency_ordered od_empty"
  by (simp add: recency_ordered_def od_empty_def od_keys_def)

lemma recency_ordered_move_to_end [simp]:
  "recency_ordered d \<Longrightarrow> recency_ordered (od_move_to_end k d)"
  by (auto simp: recency_ordered_keys od_move_to_end_def od_keys_def delete_keys
      intro: ordered_keys_touch split: option.splits)

lemma recency_ordered_setitem [simp]:
  assumes "recency_ordered d"
  shows "recency_ordered (od_setitem k v d)"
proof (cases "od_contains k d")
  case True
  then have "k \<in> set (map fst (items d))"
    by (simp add: od_contains_def map_of_eq_None_iff)
  then show ?thesis using assms True
    by (simp add: recency_ordered_keys od_setitem_def od_keys_def update_keys)
next
  case False
  then have notin: "k \<notin> set (map fst (items d))"
    by (simp add: od_contains_def map_of_eq_None_iff)
  then have "removeAll k (map fst (items d)) = map fst (items d)" by simp
  with ordered_keys_touch[of "touched d" "map fst (items d)" k] assms
  have "ordered_keys (k # touched d) (map fst (items d) @ [k])"
    by (simp add: recency_ordered_keys od_keys_def)
  then show ?thesis using False notin
    by (simp add: recency_ordered_keys od_setitem_def od_keys_def update_keys)
qed

lemma recency_ordered_delitem [simp]:
  "recency_ordered d \<Longrightarrow> recency_ordered (od_delitem k d)"
  using ordered_keys_filter[of "touched d" "od_keys d" "\<lambda>x. x \<noteq> k"]
  by (simp add: recency_ordered_keys od_delitem_def od_keys_def delete_keys
      removeAll_filter_not_eq) (metis (mono_tags, lifting) filter_cong)

lemma recency_ordered_swap_out_lru [simp]:
  "recency_ordered (memory_cache s) \<Longrightarrow> recency_ordered (memory_cache (swap_out_lru s))"
  using ordered_keys_tl[of "touched (memory_cache s)" "od_keys (memory_cache s)"]
  by (simp add: recency_ordered_keys od_keys_def swap_out_lru_items map_tl)

lemma recency_ordered_evict_n [simp]:
  "recency_ordered (memory_cache s) \<Longrightarrow> recency_ordered (memory_cache ((swap_out_lru ^^ n) s))"
  by (induction n) simp_all












subsection \<open>Membership in the on-disk set\<close>

lemma swapped_out_X_run:
  "run [RegisterExpert ''X'' 1 2 3 4 True, WorkerRuns 0, SwapOut ''X'' False]
     (init 8 Map.empty) = Some swapped_out_X"
  by (simp add: swapped_out_X_def eval_simps)






















end
